theory Spec2Isabelle
  imports Complex_Main "HOL-Library.Sublist"
begin

section \<open>Python values used by the shell\<close>

subsection \<open>Strings: whitespace, split, strip, count, replace\<close>

text \<open>
  Python strings are sequences of code points; here a character is an Isabelle
  \<open>char\<close>, read as a code point below 256. \<open>is_space\<close> is \<open>str.isspace\<close> on one
  character, restricted to that range: TAB, LF, VT, FF, CR, the four separators
  FS, GS, RS, US, the blank, NEL (0x85) and the no-break space (0xA0).
\<close>

definition is_space :: "char \<Rightarrow> bool" where
  "is_space c = (of_char c \<in> {9, 10, 11, 12, 13, 28, 29, 30, 31, 32, 133, 160 :: nat})"

text \<open>
  \<open>str.split()\<close> without a separator: leading whitespace is skipped, a token is the
  longest run of characters that are not whitespace, and no empty token is produced.
\<close>

function split :: "string \<Rightarrow> string list" where
  "split s =
     (case dropWhile is_space s of
        [] \<Rightarrow> []
      | c # cs \<Rightarrow>
          takeWhile (\<lambda>x. \<not> is_space x) (c # cs)
            # split (dropWhile (\<lambda>x. \<not> is_space x) (c # cs)))"
  by pat_completeness auto
termination
proof (relation "measure length")
  show "wf (measure length)" by simp
next
  fix s :: string and c cs
  assume a: "dropWhile is_space s = c # cs"
  have "\<not> is_space c"
    using a hd_dropWhile [of is_space s] by auto
  then have "dropWhile (\<lambda>x. \<not> is_space x) (c # cs) = dropWhile (\<lambda>x. \<not> is_space x) cs"
    by simp
  moreover have "length (dropWhile (\<lambda>x. \<not> is_space x) cs) \<le> length cs"
    by (rule length_dropWhile_le)
  ultimately have "length (dropWhile (\<lambda>x. \<not> is_space x) (c # cs)) < length (c # cs)"
    by simp
  moreover have "length (c # cs) \<le> length s"
    using a length_dropWhile_le [of is_space s] by simp
  ultimately show "(dropWhile (\<lambda>x. \<not> is_space x) (c # cs), s) \<in> measure length"
    by simp
qed

declare split.simps [simp del]

text \<open>\<open>str.strip()\<close> without an argument removes whitespace at both ends.\<close>

definition strip :: "string \<Rightarrow> string" where
  "strip s = rev (dropWhile is_space (rev (dropWhile is_space s)))"

text \<open>
  \<open>str.count(sub)\<close>: the number of occurrences of \<open>sub\<close> found by scanning from the
  left and resuming the scan behind each occurrence found, so occurrences that overlap
  an earlier one are not counted; for the empty \<open>sub\<close> it is the length plus one.
\<close>

function count :: "string \<Rightarrow> string \<Rightarrow> nat" where
  "count [] sub = (if sub = [] then 1 else 0)"
| "count (c # cs) sub =
     (if sub = [] then Suc (count cs sub)
      else if prefix sub (c # cs) then Suc (count (drop (length sub) (c # cs)) sub)
      else count cs sub)"
  by pat_completeness auto
termination
  by (relation "measure (\<lambda>(s, sub). length s)") auto

text \<open>
  \<open>str.replace(old, new)\<close> replaces the occurrences that \<open>count\<close> counts; for the
  empty \<open>old\<close> it puts \<open>new\<close> before every character and at the end.
\<close>

function replace :: "string \<Rightarrow> string \<Rightarrow> string \<Rightarrow> string" where
  "replace [] old new = (if old = [] then new else [])"
| "replace (c # cs) old new =
     (if old = [] then new @ c # replace cs old new
      else if prefix old (c # cs) then new @ replace (drop (length old) (c # cs)) old new
      else c # replace cs old new)"
  by pat_completeness auto
termination
  by (relation "measure (\<lambda>(s, old, new). length s)") auto

subsection \<open>JSON values\<close>

text \<open>
  The values \<open>json.loads\<close> produces and \<open>json.dumps\<close> accepts: \<open>None\<close>, booleans,
  integers, floats, strings, lists and dictionaries with string keys. A float is
  never computed with here; it is carried as a mantissa and a binary exponent. A
  dictionary is an association list in insertion order whose keys are distinct.
\<close>

datatype json =
    JNull
  | JBool bool
  | JInt int
  | JFloat int int
  | JStr string
  | JArr "json list"
  | JObj "(string \<times> json) list"

text \<open>Python's truth value of a JSON value (\<open>if x:\<close>, \<open>not x\<close>).\<close>

fun truthy :: "json \<Rightarrow> bool" where
  "truthy JNull = False"
| "truthy (JBool b) = b"
| "truthy (JInt i) = (i \<noteq> 0)"
| "truthy (JFloat m e) = (m \<noteq> 0)"
| "truthy (JStr s) = (s \<noteq> [])"
| "truthy (JArr xs) = (xs \<noteq> [])"
| "truthy (JObj kvs) = (kvs \<noteq> [])"

text \<open>
  \<open>for x in v\<close>: a list yields its elements, a string its characters as one-character
  strings, a dictionary its keys; every other JSON value is not iterable (\<open>None\<close>).
\<close>

fun iterate :: "json \<Rightarrow> json list option" where
  "iterate (JArr xs) = Some xs"
| "iterate (JStr s) = Some (map (\<lambda>c. JStr [c]) s)"
| "iterate (JObj kvs) = Some (map (\<lambda>kv. JStr (fst kv)) kvs)"
| "iterate JNull = None"
| "iterate (JBool b) = None"
| "iterate (JInt i) = None"
| "iterate (JFloat m e) = None"

text \<open>
  \<open>v[key]\<close> for a string key: the value of a dictionary that has the key; a
  \<open>KeyError\<close> or \<open>TypeError\<close> (\<open>None\<close> here) for anything else.
\<close>

fun subscript :: "json \<Rightarrow> string \<Rightarrow> json option" where
  "subscript (JObj kvs) k = map_of kvs k"
| "subscript JNull k = None"
| "subscript (JBool b) k = None"
| "subscript (JInt i) k = None"
| "subscript (JFloat m e) k = None"
| "subscript (JStr s) k = None"
| "subscript (JArr xs) k = None"

subsection \<open>Exceptions\<close>

text \<open>
  The exceptions the shell raises or catches. Where the message is an f-string over a
  value that is not a string, the exception carries the value instead of Python's
  rendering of it (\<open>TimeoutError\<close>: the timeout and the command).
\<close>

datatype error =
    ValueError string
  | TimeoutError json string
  | Exception string
  | KeyError string
  | TypeError string
  | AttributeError string
  | ValidationError string
  | OSError string
  | ApiError string

subsection \<open>Timestamps\<close>

record datetime =
  year :: nat
  month :: nat
  day :: nat
  hour :: nat
  minute :: nat
  second :: nat
  microsecond :: nat

definition is_leap :: "nat \<Rightarrow> bool" where
  "is_leap y = (y mod 4 = 0 \<and> (y mod 100 \<noteq> 0 \<or> y mod 400 = 0))"

definition days_in_month :: "nat \<Rightarrow> nat \<Rightarrow> nat" where
  "days_in_month y m =
     (if m = 2 then (if is_leap y then 29 else 28)
      else if m \<in> {4, 6, 9, 11} then 30 else 31)"

text \<open>The values a Python \<open>datetime\<close> can hold.\<close>

definition valid_datetime :: "datetime \<Rightarrow> bool" where
  "valid_datetime d =
     (1 \<le> year d \<and> year d \<le> 9999 \<and> 1 \<le> month d \<and> month d \<le> 12 \<and>
      1 \<le> day d \<and> day d \<le> days_in_month (year d) (month d) \<and>
      hour d < 24 \<and> minute d < 60 \<and> second d < 60 \<and> microsecond d < 1000000)"

fun pad :: "nat \<Rightarrow> nat \<Rightarrow> string" where
  "pad 0 n = []"
| "pad (Suc k) n = pad k (n div 10) @ [char_of (48 + n mod 10)]"

definition digit_val :: "char \<Rightarrow> nat option" where
  "digit_val c =
     (let n = of_char c :: nat in if 48 \<le> n \<and> n \<le> 57 then Some (n - 48) else None)"

fun parse_digits :: "nat \<Rightarrow> string \<Rightarrow> nat option" where
  "parse_digits acc [] = Some acc"
| "parse_digits acc (c # cs) =
     (case digit_val c of None \<Rightarrow> None | Some d \<Rightarrow> parse_digits (10 * acc + d) cs)"

text \<open>
  \<open>datetime.isoformat()\<close> of a naive timestamp: \<open>YYYY-MM-DDTHH:MM:SS\<close>, followed by
  \<open>.ffffff\<close> when the microsecond is not zero.
\<close>

definition isoformat :: "datetime \<Rightarrow> string" where
  "isoformat d =
     pad 4 (year d) @ ''-'' @ pad 2 (month d) @ ''-'' @ pad 2 (day d) @ ''T'' @
     pad 2 (hour d) @ '':'' @ pad 2 (minute d) @ '':'' @ pad 2 (second d) @
     (if microsecond d = 0 then [] else ''.'' @ pad 6 (microsecond d))"

text \<open>
  \<open>datetime.fromisoformat\<close> on the two layouts \<open>isoformat\<close> writes; a string in any
  other layout is a \<open>ValueError\<close> (\<open>None\<close>) in this model.
\<close>

definition fromisoformat :: "string \<Rightarrow> datetime option" where
  "fromisoformat s =
     (if (length s = 19 \<or> (length s = 26 \<and> s ! 19 = CHR ''.'')) \<and>
         s ! 4 = CHR ''-'' \<and> s ! 7 = CHR ''-'' \<and> s ! 10 = CHR ''T'' \<and>
         s ! 13 = CHR '':'' \<and> s ! 16 = CHR '':''
      then
        Option.bind (parse_digits 0 (take 4 s)) (\<lambda>y.
        Option.bind (parse_digits 0 (take 2 (drop 5 s))) (\<lambda>mo.
        Option.bind (parse_digits 0 (take 2 (drop 8 s))) (\<lambda>d.
        Option.bind (parse_digits 0 (take 2 (drop 11 s))) (\<lambda>h.
        Option.bind (parse_digits 0 (take 2 (drop 14 s))) (\<lambda>mi.
        Option.bind (parse_digits 0 (take 2 (drop 17 s))) (\<lambda>se.
        Option.bind (parse_digits 0 (drop 20 s)) (\<lambda>us.
          let t = \<lparr>year = y, month = mo, day = d, hour = h, minute = mi,
                   second = se, microsecond = us\<rparr>
          in if valid_datetime t then Some t else None)))))))
      else None)"

section \<open>Conversation store\<close>

datatype MessageType = USER | ASSISTANT | COMMAND | SYSTEM

text \<open>\<open>MessageType.value\<close> and the lookup \<open>MessageType(value)\<close>.\<close>

fun message_type_value :: "MessageType \<Rightarrow> string" where
  "message_type_value USER = ''user''"
| "message_type_value ASSISTANT = ''assistant''"
| "message_type_value COMMAND = ''command''"
| "message_type_value SYSTEM = ''system''"

definition message_type_of :: "json \<Rightarrow> MessageType option" where
  "message_type_of v =
     (if v = JStr ''user'' then Some USER
      else if v = JStr ''assistant'' then Some ASSISTANT
      else if v = JStr ''command'' then Some COMMAND
      else if v = JStr ''system'' then Some SYSTEM
      else None)"

text \<open>
  \<open>ConversationEntry\<close>. The dataclass does not check its field types: \<open>content\<close> is
  whatever the caller passes (a \<open>say\<close> action's message may be any JSON value), and so
  is \<open>metadata\<close>.
\<close>

record ConversationEntry =
  entry_type :: MessageType
  content :: json
  timestamp :: datetime
  metadata :: json

text \<open>
  The history file. \<open>json.dumps\<close> and \<open>json.loads\<close> are the standard library's; the
  file is modelled by the JSON document the two exchange, or as a file whose text
  \<open>json.loads\<close> rejects, or as absent.
\<close>

datatype history_doc = NoFile | Unparsable | Document json

record ConversationManager =
  history :: "ConversationEntry list"
  history_size :: int
  history_file :: history_doc

definition entry_to_json :: "ConversationEntry \<Rightarrow> json" where
  "entry_to_json e =
     JObj [(''type'', JStr (message_type_value (entry_type e))),
           (''content'', content e),
           (''timestamp'', JStr (isoformat (timestamp e))),
           (''metadata'', metadata e)]"

definition save_history :: "ConversationManager \<Rightarrow> ConversationManager" where
  "save_history cm = cm\<lparr>history_file := Document (JArr (map entry_to_json (history cm)))\<rparr>"

text \<open>One element of the comprehension in \<open>_load_history\<close>; \<open>None\<close> is any exception.\<close>

definition entry_of_json :: "json \<Rightarrow> ConversationEntry option" where
  "entry_of_json j =
     Option.bind (subscript j ''type'') (\<lambda>ty.
     Option.bind (message_type_of ty) (\<lambda>mt.
     Option.bind (subscript j ''content'') (\<lambda>c.
     Option.bind (subscript j ''timestamp'') (\<lambda>ts.
     Option.bind (case ts of JStr s \<Rightarrow> fromisoformat s | _ \<Rightarrow> None) (\<lambda>t.
     Option.bind (subscript j ''metadata'') (\<lambda>m.
       Some \<lparr>entry_type = mt, content = c, timestamp = t, metadata = m\<rparr>))))))"

fun load_entries :: "json list \<Rightarrow> ConversationEntry list option" where
  "load_entries [] = Some []"
| "load_entries (j # js) =
     (case entry_of_json j of
        None \<Rightarrow> None
      | Some e \<Rightarrow> (case load_entries js of None \<Rightarrow> None | Some es \<Rightarrow> Some (e # es)))"

text \<open>
  \<open>_load_history\<close>: nothing happens when the file is absent; any exception is logged
  and leaves the history as it was.
\<close>

definition load_history :: "ConversationManager \<Rightarrow> ConversationManager" where
  "load_history cm =
     (case history_file cm of
        NoFile \<Rightarrow> cm
      | Unparsable \<Rightarrow> cm
      | Document d \<Rightarrow>
          (case iterate d of
             None \<Rightarrow> cm
           | Some js \<Rightarrow>
               (case load_entries js of None \<Rightarrow> cm | Some es \<Rightarrow> cm\<lparr>history := es\<rparr>)))"

text \<open>\<open>ConversationManager.__init__\<close>, given the history file found at startup.\<close>

definition new_conversation_manager :: "int \<Rightarrow> history_doc \<Rightarrow> ConversationManager" where
  "new_conversation_manager n f =
     load_history \<lparr>history = [], history_size = n, history_file = f\<rparr>"

text \<open>\<open>add_entry\<close>: append, drop the first entry when longer than the capacity, save.\<close>

definition add_entry :: "ConversationEntry \<Rightarrow> ConversationManager \<Rightarrow> ConversationManager" where
  "add_entry e cm =
     (let h = history cm @ [e];
          h' = (if int (length h) > history_size cm then tl h else h)
      in save_history (cm\<lparr>history := h'\<rparr>))"

section \<open>File mutation guard\<close>

text \<open>
  The files the actions work on: a map from path to content, where a path is the
  normalised string \<open>Path(file_path)\<close> stands for, and the list of the reads and
  writes done so far, oldest first. Every write to the map succeeds; permissions,
  missing directories and full disks are outside the model. The history file of the
  conversation store is kept apart from these files.
\<close>

datatype fs_op = ReadOp string | WriteOp string

record filesystem =
  files :: "string \<rightharpoonup> string"
  io_log :: "fs_op list"

text \<open>\<open>Path.name\<close>: the last component of the path.\<close>

definition path_name :: "string \<Rightarrow> string" where
  "path_name p = rev (takeWhile (\<lambda>c. c \<noteq> CHR ''/'') (rev p))"

text \<open>\<open>strftime("%Y%m%d_%H%M%S")\<close>.\<close>

definition strftime :: "datetime \<Rightarrow> string" where
  "strftime d =
     pad 4 (year d) @ pad 2 (month d) @ pad 2 (day d) @ ''_'' @
     pad 2 (hour d) @ pad 2 (minute d) @ pad 2 (second d)"

definition backup_path :: "datetime \<Rightarrow> string \<Rightarrow> string" where
  "backup_path now p = ''backups/'' @ path_name p @ ''.'' @ strftime now @ ''.bak''"

text \<open>\<open>create_backup\<close>, with the clock's reading as an argument.\<close>

definition create_backup :: "datetime \<Rightarrow> string \<Rightarrow> filesystem \<Rightarrow> filesystem" where
  "create_backup now p fs =
     (case files fs p of
        None \<Rightarrow> fs
      | Some bytes \<Rightarrow>
          fs\<lparr>files := (files fs)(backup_path now p \<mapsto> bytes),
             io_log := io_log fs @ [ReadOp p, WriteOp (backup_path now p)]\<rparr>)"

text \<open>
  \<open>update_file\<close>. The interpreter passes the optional fields of a file action as
  they are, so \<open>old_str\<close> and \<open>new_str\<close> may be \<open>None\<close>: \<open>content.count(None)\<close>
  and \<open>content.replace(old, None)\<close> raise a \<open>TypeError\<close>. Every exception is caught
  and turned into the result \<open>False\<close>.
\<close>

definition update_file ::
  "datetime \<Rightarrow> string \<Rightarrow> string option \<Rightarrow> string option \<Rightarrow> filesystem \<Rightarrow> bool \<times> filesystem"
where
  "update_file now p old_s new_s fs =
     (let fs1 = create_backup now p fs in
      case files fs1 p of
        None \<Rightarrow> (False, fs1)
      | Some text \<Rightarrow>
          (let fs2 = fs1\<lparr>io_log := io_log fs1 @ [ReadOp p]\<rparr> in
           case old_s of
             None \<Rightarrow> (False, fs2)
           | Some old \<Rightarrow>
               if count text old \<noteq> 1 then (False, fs2)
               else
                 (case new_s of
                    None \<Rightarrow> (False, fs2)
                  | Some new \<Rightarrow>
                      (True, fs2\<lparr>files := (files fs2)(p \<mapsto> replace text old new),
                                  io_log := io_log fs2 @ [WriteOp p]\<rparr>))))"

text \<open>\<open>rewrite_file\<close>; \<open>write_text(None)\<close> raises before the file is opened.\<close>

definition rewrite_file ::
  "datetime \<Rightarrow> string \<Rightarrow> string option \<Rightarrow> filesystem \<Rightarrow> bool \<times> filesystem"
where
  "rewrite_file now p text_opt fs =
     (let fs1 = create_backup now p fs in
      case text_opt of
        None \<Rightarrow> (False, fs1)
      | Some text \<Rightarrow>
          (True, fs1\<lparr>files := (files fs1)(p \<mapsto> text), io_log := io_log fs1 @ [WriteOp p]\<rparr>))"

definition create_file :: "string \<Rightarrow> string option \<Rightarrow> filesystem \<Rightarrow> bool \<times> filesystem" where
  "create_file p text_opt fs =
     (case files fs p of
        Some existing \<Rightarrow> (False, fs)
      | None \<Rightarrow>
          (case text_opt of
             None \<Rightarrow> (False, fs)
           | Some text \<Rightarrow>
               (True, fs\<lparr>files := (files fs)(p \<mapsto> text), io_log := io_log fs @ [WriteOp p]\<rparr>)))"

text \<open>
  The occurrences of \<open>old\<close> in a text, as the specification words them: the
  positions at which \<open>old\<close> stands as a substring.
\<close>

definition occurrences :: "string \<Rightarrow> string \<Rightarrow> nat list" where
  "occurrences text old = filter (\<lambda>i. prefix old (drop i text)) [0..<Suc (length text)]"

text \<open>
  \<open>FileAction(**action)\<close>: pydantic accepts a string for \<open>file_path\<close> and
  \<open>command\<close> (both required), and a string, \<open>None\<close> or nothing for the three
  optional fields; keys it does not know are ignored. \<open>None\<close> is a validation error.
\<close>

record FileAction =
  file_path :: string
  command :: string
  file_content :: "string option"
  old_str :: "string option"
  new_str :: "string option"

fun optional_str :: "json option \<Rightarrow> string option option" where
  "optional_str None = Some None"
| "optional_str (Some JNull) = Some None"
| "optional_str (Some (JStr s)) = Some (Some s)"
| "optional_str (Some (JBool b)) = None"
| "optional_str (Some (JInt i)) = None"
| "optional_str (Some (JFloat m e)) = None"
| "optional_str (Some (JArr xs)) = None"
| "optional_str (Some (JObj kvs)) = None"

fun required_str :: "json option \<Rightarrow> string option" where
  "required_str (Some (JStr s)) = Some s"
| "required_str None = None"
| "required_str (Some JNull) = None"
| "required_str (Some (JBool b)) = None"
| "required_str (Some (JInt i)) = None"
| "required_str (Some (JFloat m e)) = None"
| "required_str (Some (JArr xs)) = None"
| "required_str (Some (JObj kvs)) = None"

definition new_FileAction :: "(string \<times> json) list \<Rightarrow> FileAction option" where
  "new_FileAction kvs =
     Option.bind (required_str (map_of kvs ''file_path'')) (\<lambda>p.
     Option.bind (required_str (map_of kvs ''command'')) (\<lambda>c.
     Option.bind (optional_str (map_of kvs ''content'')) (\<lambda>ct.
     Option.bind (optional_str (map_of kvs ''old_str'')) (\<lambda>old.
     Option.bind (optional_str (map_of kvs ''new_str'')) (\<lambda>new.
       Some \<lparr>file_path = p, command = c, file_content = ct, old_str = old, new_str = new\<rparr>)))))"

section \<open>The shell\<close>

subsection \<open>Task state\<close>

text \<open>
  \<open>last_error\<close> holds either \<open>str(e)\<close> for a caught exception \<open>e\<close> or a literal
  text.
\<close>

datatype error_text = StrOf error | Literal string

record TaskState =
  in_progress :: bool
  completed :: bool
  attempts :: int
  max_attempts :: int
  last_error :: "error_text option"
  start_time :: datetime

definition new_TaskState :: "datetime \<Rightarrow> TaskState" where
  "new_TaskState now =
     \<lparr>in_progress = False, completed = False, attempts = 0, max_attempts = 3,
      last_error = None, start_time = now\<rparr>"

definition should_retry :: "TaskState \<Rightarrow> bool" where
  "should_retry t = (in_progress t \<and> \<not> completed t \<and> attempts t < max_attempts t)"

subsection \<open>State and environment\<close>

text \<open>
  What the shell does to the outside, oldest first: a call of
  \<open>create_subprocess_shell\<close> with a command, \<open>process.kill()\<close> on the process of a
  command, a request to the model client for a message, \<open>asyncio.sleep\<close> with a
  delay in seconds, and the final report that the task was not completed. Other
  console output is not modelled.
\<close>

datatype event =
    Spawn string
  | Kill string
  | Request string
  | Sleep rat
  | FailureReport

record ClaudeShell =
  conversation_manager :: ConversationManager
  fs :: filesystem
  current_task :: "TaskState option"
  command_timeout :: int
  ticks :: nat
  trace :: "event list"

text \<open>
  What running a command does, as the environment decides it: the spawn fails; the
  process does not finish within the timeout; waiting for it or decoding its output
  fails otherwise; or it ends with its output (decoded and stripped), its return code
  and the elapsed time as a float.
\<close>

datatype process_result =
    SpawnFails error
  | TimesOut
  | WaitFails error
  | Completes string string int "int \<times> int"

text \<open>
  What a request to the model client does: it raises (also while the reply's first
  text block is read), it returns a reply that is empty or has no \<open>content\<close>, or it
  returns a text.
\<close>

datatype api_response = ApiRaises error | ApiInvalid | ApiText string

text \<open>
  The collaborators of the shell. The clock is read by the number of readings so far.
  The model's reply may depend on everything the shell knows when it asks (the request
  text is built from the history, the task and the message). A command's outcome
  depends on the command, the timeout handed to \<open>wait_for\<close> and the files, which it
  may change. \<open>json_loads\<close> is \<open>json.loads\<close>, with \<open>None\<close> for a \<open>JSONDecodeError\<close>.
\<close>

record env =
  clock :: "nat \<Rightarrow> datetime"
  messages_create :: "ClaudeShell \<Rightarrow> string \<Rightarrow> api_response"
  run_process ::
    "string \<Rightarrow> json \<Rightarrow> (string \<rightharpoonup> string) \<Rightarrow> process_result \<times> (string \<rightharpoonup> string)"
  json_loads :: "string \<Rightarrow> json option"

definition set_last_error :: "error_text \<Rightarrow> ClaudeShell \<Rightarrow> ClaudeShell" where
  "set_last_error txt sh =
     sh\<lparr>current_task := map_option (\<lambda>t. t\<lparr>last_error := Some txt\<rparr>) (current_task sh)\<rparr>"

text \<open>
  \<open>conversation_manager.add_entry(ConversationEntry(type, content, metadata))\<close>: the
  timestamp is the clock's reading.
\<close>

definition record_entry :: "env \<Rightarrow> MessageType \<Rightarrow> json \<Rightarrow> json \<Rightarrow> ClaudeShell \<Rightarrow> ClaudeShell" where
  "record_entry ev ty c m sh =
     sh\<lparr>conversation_manager :=
          add_entry \<lparr>entry_type = ty, content = c, timestamp = clock ev (ticks sh), metadata = m\<rparr>
            (conversation_manager sh),
        ticks := Suc (ticks sh)\<rparr>"

subsection \<open>Command runner\<close>

record CommandOutput =
  stdout :: string
  stderr :: string
  returncode :: int
  execution_time :: "int \<times> int"

definition blocked_commands :: "string set" where
  "blocked_commands = {''rm'', ''sudo'', ''su'', ''dd''}"

definition execute_command ::
  "env \<Rightarrow> string \<Rightarrow> json \<Rightarrow> ClaudeShell \<Rightarrow> (error + CommandOutput) \<times> ClaudeShell"
where
  "execute_command ev cmd timeout sh =
     (if \<exists>b \<in> blocked_commands. b \<in> set (split cmd)
      then (Inl (ValueError (''Command contains blocked terms: '' @ cmd)), sh)
      else
        (let sh1 = sh\<lparr>trace := trace sh @ [Spawn cmd]\<rparr> in
         case run_process ev cmd timeout (files (fs sh)) of
           (SpawnFails e, fl) \<Rightarrow> (Inl e, sh1)
         | (TimesOut, fl) \<Rightarrow>
             (Inl (TimeoutError timeout cmd),
              sh1\<lparr>fs := (fs sh)\<lparr>files := fl\<rparr>, trace := trace sh1 @ [Kill cmd]\<rparr>)
         | (WaitFails e, fl) \<Rightarrow> (Inl e, sh1\<lparr>fs := (fs sh)\<lparr>files := fl\<rparr>\<rparr>)
         | (Completes out err rc secs, fl) \<Rightarrow>
             (Inr \<lparr>stdout = out, stderr = err, returncode = rc, execution_time = secs\<rparr>,
              sh1\<lparr>fs := (fs sh)\<lparr>files := fl\<rparr>\<rparr>)))"

subsection \<open>Action plan interpreter\<close>

text \<open>
  The body of the inner \<open>try\<close> of \<open>process_actions\<close> for one action, a dictionary
  with a \<open>type\<close> key. A command that is not a string has no \<open>split\<close>: the
  \<open>AttributeError\<close> of \<open>execute_command\<close>'s first use of it is raised here. An
  action of an unknown type does nothing.
\<close>

definition process_action ::
  "env \<Rightarrow> (string \<times> json) list \<Rightarrow> ClaudeShell \<Rightarrow> (error + unit) \<times> ClaudeShell"
where
  "process_action ev action sh =
     (if map_of action ''type'' = Some (JStr ''command'') then
        (case map_of action ''command'' of
           None \<Rightarrow> (Inl (KeyError ''command''), sh)
         | Some (JStr cmd) \<Rightarrow>
             (case execute_command ev cmd
                     (case map_of action ''timeout'' of
                        None \<Rightarrow> JInt (command_timeout sh)
                      | Some t \<Rightarrow> t) sh of
                (Inl e, sh1) \<Rightarrow> (Inl e, sh1)
              | (Inr result, sh1) \<Rightarrow>
                  (let sh2 = record_entry ev COMMAND (JStr cmd)
                        (JObj [(''stdout'', JStr (stdout result)),
                               (''stderr'', JStr (stderr result)),
                               (''returncode'', JInt (returncode result)),
                               (''execution_time'',
                                  JFloat (fst (execution_time result)) (snd (execution_time result)))])
                        sh1
                   in if returncode result \<noteq> 0
                      then (Inl (Exception (''Command failed: '' @ stderr result)), sh2)
                      else (Inr (), sh2)))
         | Some other \<Rightarrow> (Inl (AttributeError ''split''), sh))
      else if map_of action ''type'' = Some (JStr ''say'') then
        (case map_of action ''message'' of
           None \<Rightarrow> (Inl (KeyError ''message''), sh)
         | Some msg \<Rightarrow> (Inr (), record_entry ev ASSISTANT msg (JObj []) sh))
      else if map_of action ''type'' = Some (JStr ''file'') then
        (case new_FileAction action of
           None \<Rightarrow> (Inl (ValidationError ''FileAction''), sh)
         | Some fa \<Rightarrow>
             (let now = clock ev (ticks sh);
                  r = (if command fa = ''update''
                       then update_file now (file_path fa) (old_str fa) (new_str fa) (fs sh)
                       else if command fa = ''rewrite''
                       then rewrite_file now (file_path fa) (file_content fa) (fs sh)
                       else if command fa = ''create''
                       then create_file (file_path fa) (file_content fa) (fs sh)
                       else (False, fs sh));
                  sh1 = sh\<lparr>fs := snd r, ticks := Suc (ticks sh)\<rparr>
              in if fst r then (Inr (), sh1)
                 else (Inl (Exception (''File operation '' @ command fa @ '' failed'')), sh1)))
      else (Inr (), sh))"

text \<open>
  The loop over the actions: an element that is not a dictionary or has no \<open>type\<close>
  key is skipped; an exception of an action is recorded as the task's last error (when
  there is a task) and the loop goes on.
\<close>

fun run_actions :: "env \<Rightarrow> json list \<Rightarrow> ClaudeShell \<Rightarrow> ClaudeShell" where
  "run_actions ev [] sh = sh"
| "run_actions ev (JObj action # rest) sh =
     (if ''type'' \<in> fst ` set action then
        (case process_action ev action sh of
           (Inl e, sh1) \<Rightarrow> run_actions ev rest (set_last_error (StrOf e) sh1)
         | (Inr u, sh1) \<Rightarrow> run_actions ev rest sh1)
      else run_actions ev rest sh)"
| "run_actions ev (other # rest) sh = run_actions ev rest sh"

text \<open>
  \<open>process_actions\<close>: the format check raises before the outer \<open>try\<close>; inside it,
  iterating over an \<open>actions\<close> value that is not iterable raises a \<open>TypeError\<close>, which
  the outer handler records and raises again.
\<close>

definition process_actions :: "env \<Rightarrow> json \<Rightarrow> ClaudeShell \<Rightarrow> (error + unit) \<times> ClaudeShell" where
  "process_actions ev actions_data sh =
     (case actions_data of
        JObj kvs \<Rightarrow>
          (case map_of kvs ''actions'' of
             None \<Rightarrow> (Inl (ValueError ''Invalid actions data format''), sh)
           | Some acts \<Rightarrow>
               (case iterate acts of
                  None \<Rightarrow>
                    (Inl (TypeError ''object is not iterable''),
                     set_last_error (StrOf (TypeError ''object is not iterable'')) sh)
                | Some xs \<Rightarrow> (Inr (), run_actions ev xs sh)))
      | _ \<Rightarrow> (Inl (ValueError ''Invalid actions data format''), sh))"

subsection \<open>Task retry engine\<close>

text \<open>
  \<open>get_recent_context\<close> renders \<open>history[-history_size:]\<close>. Its text is not
  modelled, only whether rendering raises: for a command entry it calls
  \<open>entry.metadata.get\<close>, which only a dictionary has.
\<close>

definition recent_window :: "ConversationManager \<Rightarrow> ConversationEntry list" where
  "recent_window cm =
     (let n = history_size cm; h = history cm
      in if n > 0 then drop (length h - nat n) h else drop (nat (- n)) h)"

fun is_dict :: "json \<Rightarrow> bool" where
  "is_dict (JObj kvs) = True"
| "is_dict JNull = False"
| "is_dict (JBool b) = False"
| "is_dict (JInt i) = False"
| "is_dict (JFloat m e) = False"
| "is_dict (JStr s) = False"
| "is_dict (JArr xs) = False"

definition context_renders :: "ConversationManager \<Rightarrow> bool" where
  "context_renders cm =
     list_all (\<lambda>e. entry_type e \<noteq> COMMAND \<or> is_dict (metadata e)) (recent_window cm)"

text \<open>
  \<open>send_to_anthropic\<close>: the context is rendered outside the \<open>try\<close>, so its
  exception propagates; every exception of the request itself is caught, recorded
  as the task's last error (when there is a task) and answered with \<open>None\<close>.
\<close>

definition send_to_anthropic ::
  "env \<Rightarrow> string \<Rightarrow> ClaudeShell \<Rightarrow> (error + string option) \<times> ClaudeShell"
where
  "send_to_anthropic ev message sh =
     (if \<not> context_renders (conversation_manager sh)
      then (Inl (AttributeError ''get''), sh)
      else
        (let sh1 = sh\<lparr>trace := trace sh @ [Request message]\<rparr> in
         case messages_create ev sh message of
           ApiRaises e \<Rightarrow> (Inr None, set_last_error (StrOf e) sh1)
         | ApiInvalid \<Rightarrow>
             (Inr None,
              set_last_error (StrOf (ValueError ''Invalid response from Anthropic API'')) sh1)
         | ApiText txt \<Rightarrow> (Inr (Some (strip txt)), sh1)))"

text \<open>
  One iteration of the loop of \<open>_process_input\<close>, up to its \<open>except\<close> clause: it
  leaves the loop (\<open>break\<close>), falls through to the next test of the loop condition,
  or raises.
\<close>

datatype attempt_result = Break | Continue | Raised error

definition mark_completed :: "ClaudeShell \<Rightarrow> ClaudeShell" where
  "mark_completed sh =
     sh\<lparr>current_task := map_option (\<lambda>t. t\<lparr>completed := True\<rparr>) (current_task sh)\<rparr>"

definition is_plan :: "json \<Rightarrow> bool" where
  "is_plan j = (case j of JObj kvs \<Rightarrow> ''actions'' \<in> fst ` set kvs | _ \<Rightarrow> False)"

definition attempt :: "env \<Rightarrow> string \<Rightarrow> ClaudeShell \<Rightarrow> attempt_result \<times> ClaudeShell" where
  "attempt ev line sh0 =
     (let sh = sh0\<lparr>current_task :=
                 map_option (\<lambda>t. t\<lparr>attempts := attempts t + 1\<rparr>) (current_task sh0)\<rparr> in
      case send_to_anthropic ev line sh of
        (Inl e, sh1) \<Rightarrow> (Raised e, sh1)
      | (Inr None, sh1) \<Rightarrow> (Continue, set_last_error (Literal ''No response received'') sh1)
      | (Inr (Some response), sh1) \<Rightarrow>
          if response = [] then
            (Continue, set_last_error (Literal ''No response received'') sh1)
          else
            (case json_loads ev response of
               None \<Rightarrow>
                 (Break, mark_completed (record_entry ev ASSISTANT (JStr response) (JObj []) sh1))
             | Some actions_data \<Rightarrow>
                 if is_plan actions_data then
                   (case process_actions ev actions_data sh1 of
                      (Inl e, sh2) \<Rightarrow> (Raised e, sh2)
                    | (Inr u, sh2) \<Rightarrow>
                        if truthy (case subscript actions_data ''needs_followup'' of
                                     None \<Rightarrow> JNull | Some v \<Rightarrow> v)
                        then (Continue, sh2)
                        else (Break, mark_completed sh2))
                 else
                   (Break,
                    mark_completed (record_entry ev ASSISTANT (JStr response) (JObj []) sh1))))"

text \<open>
  \<open>2 ** (attempts - 1)\<close>; Python yields a fraction for a negative exponent.
\<close>

definition retry_delay :: "int \<Rightarrow> rat" where
  "retry_delay a = (if 1 \<le> a then 2 ^ nat (a - 1) else 1 / 2 ^ nat (1 - a))"

text \<open>The \<open>except\<close> clause of the loop.\<close>

definition handle_error :: "error \<Rightarrow> ClaudeShell \<Rightarrow> ClaudeShell" where
  "handle_error e sh =
     (let sh1 = set_last_error (StrOf e) sh in
      case current_task sh1 of
        None \<Rightarrow> sh1
      | Some t \<Rightarrow>
          if should_retry t then sh1\<lparr>trace := trace sh1 @ [Sleep (retry_delay (attempts t))]\<rparr>
          else sh1)"

text \<open>
  The loop stops because each iteration adds one to \<open>attempts\<close> and nothing else
  changes \<open>attempts\<close>, \<open>max_attempts\<close> or \<open>in_progress\<close>: \<open>remaining\<close> is the
  measure, and the lemmas up to \<open>attempt_decreases\<close> show that every operation of an
  iteration leaves the three fields (\<open>counters\<close>) alone.
\<close>

definition remaining :: "ClaudeShell \<Rightarrow> nat" where
  "remaining sh = (case current_task sh of None \<Rightarrow> 0 | Some t \<Rightarrow> nat (max_attempts t - attempts t))"

definition counters :: "ClaudeShell \<Rightarrow> (bool \<times> int \<times> int) option" where
  "counters sh = map_option (\<lambda>t. (in_progress t, attempts t, max_attempts t)) (current_task sh)"

lemma counters_set_last_error [simp]: "counters (set_last_error x sh) = counters sh"
  by (cases "current_task sh") (simp_all add: counters_def set_last_error_def)

lemma counters_record_entry [simp]: "counters (record_entry ev ty c m sh) = counters sh"
  by (simp add: counters_def record_entry_def)

lemma counters_mark_completed [simp]: "counters (mark_completed sh) = counters sh"
  by (cases "current_task sh") (simp_all add: counters_def mark_completed_def)

lemma execute_command_task:
  "execute_command ev c t sh = (r, sh') \<Longrightarrow> current_task sh' = current_task sh"
  by (auto simp: execute_command_def Let_def split: if_splits prod.splits process_result.splits)

lemma record_entry_task [simp]: "current_task (record_entry ev ty c m sh) = current_task sh"
  by (simp add: record_entry_def)

lemma process_action_task:
  "process_action ev a sh = (r, sh') \<Longrightarrow> current_task sh' = current_task sh"
  unfolding process_action_def
  by (auto simp: Let_def split: if_splits option.splits json.splits prod.splits sum.splits
        dest: execute_command_task)

lemma counters_run_actions [simp]: "counters (run_actions ev xs sh) = counters sh"
proof (induction ev xs sh rule: run_actions.induct)
  case (2 ev action rest sh)
  show ?case
  proof (cases "''type'' \<in> fst ` set action")
    case False
    with 2 show ?thesis by simp
  next
    case True
    obtain r sh1 where p: "process_action ev action sh = (r, sh1)"
      by (cases "process_action ev action sh")
    then have t: "current_task sh1 = current_task sh"
      by (rule process_action_task)
    then have c: "counters sh1 = counters sh"
      by (simp add: counters_def)
    show ?thesis
    proof (cases r)
      case (Inl e)
      with 2(1) [OF True p [symmetric]] True p c show ?thesis by simp
    next
      case (Inr u)
      with 2(2) [OF True p [symmetric]] True p c show ?thesis by simp
    qed
  qed
qed simp_all

lemma counters_process_actions [simp]:
  "counters (snd (process_actions ev d sh)) = counters sh"
  by (simp add: process_actions_def split: json.splits option.splits)

lemma counters_send [simp]: "counters (snd (send_to_anthropic ev m sh)) = counters sh"
  by (simp add: send_to_anthropic_def Let_def counters_def [of "_\<lparr>trace := _\<rparr>"] counters_def [of sh]
      split: api_response.splits)

lemma counters_attempt:
  "counters (snd (attempt ev line sh)) = map_option (\<lambda>(p, a, m). (p, a + 1, m)) (counters sh)"
proof -
  define sh0 where "sh0 = sh\<lparr>current_task :=
                 map_option (\<lambda>t. t\<lparr>attempts := attempts t + 1\<rparr>) (current_task sh)\<rparr>"
  have c0: "counters sh0 = map_option (\<lambda>(p, a, m). (p, a + 1, m)) (counters sh)"
    by (cases "current_task sh") (simp_all add: sh0_def counters_def)
  obtain r sh1 where s: "send_to_anthropic ev line sh0 = (r, sh1)"
    by (cases "send_to_anthropic ev line sh0")
  then have c1: "counters sh1 = counters sh0"
    using counters_send [of ev line sh0] by simp
  have "counters (snd (attempt ev line sh)) = counters sh0"
  proof (cases r)
    case (Inl e)
    with s c1 show ?thesis by (simp add: attempt_def sh0_def [symmetric])
  next
    case (Inr resp)
    show ?thesis
    proof (cases resp)
      case None
      with Inr s c1 show ?thesis by (simp add: attempt_def sh0_def [symmetric])
    next
      case (Some response)
      have pa: "\<And>d r sh2. process_actions ev d sh1 = (r, sh2) \<Longrightarrow> counters sh2 = counters sh0"
        using c1 counters_process_actions by (metis snd_conv)
      from Some Inr s c1 show ?thesis
        by (auto simp: attempt_def sh0_def [symmetric] split: option.splits prod.splits sum.splits
              dest: pa)
    qed
  qed
  with c0 show ?thesis by simp
qed

lemma counters_trace [simp]: "counters (sh\<lparr>trace := x\<rparr>) = counters sh"
  by (simp add: counters_def)

lemma counters_handle_error [simp]: "counters (handle_error e sh) = counters sh"
  by (simp add: handle_error_def Let_def split: option.splits)

lemma remaining_counters:
  "remaining sh = (case counters sh of None \<Rightarrow> 0 | Some (p, a, m) \<Rightarrow> nat (m - a))"
  by (cases "current_task sh") (simp_all add: remaining_def counters_def)

lemma attempt_decreases:
  assumes "current_task sh = Some t" and "should_retry t"
  shows "remaining (snd (attempt ev line sh)) < remaining sh"
    and "remaining (handle_error e (snd (attempt ev line sh))) < remaining sh"
  using assms
  by (simp_all add: remaining_counters counters_attempt, simp_all add: counters_def should_retry_def)

text \<open>
  The \<open>while\<close> loop of \<open>_process_input\<close>, entered with a current task (the case
  without one is decided in \<open>process_input\<close>, before the loop).
\<close>

function process_loop :: "env \<Rightarrow> string \<Rightarrow> ClaudeShell \<Rightarrow> ClaudeShell" where
  "process_loop ev line sh =
     (case current_task sh of
        None \<Rightarrow> sh
      | Some t \<Rightarrow>
          if should_retry t then
            (case attempt ev line sh of
               (Break, sh1) \<Rightarrow> sh1
             | (Continue, sh1) \<Rightarrow> process_loop ev line sh1
             | (Raised e, sh1) \<Rightarrow> process_loop ev line (handle_error e sh1))
          else sh)"
  by pat_completeness auto
termination
proof (relation "measure (\<lambda>(ev, line, sh). remaining sh)")
  show "wf (measure (\<lambda>(ev, line, sh). remaining sh))" by simp
next
  fix ev line sh t x y
  assume a: "current_task sh = Some t" "should_retry t" and b: "(x, y) = attempt ev line sh"
  from b have "y = snd (attempt ev line sh)" by (metis snd_conv)
  with attempt_decreases(1) [OF a, of ev line]
  show "((ev, line, y), ev, line, sh) \<in> measure (\<lambda>(ev, line, sh). remaining sh)"
    by simp
next
  fix ev line sh t x y e
  assume a: "current_task sh = Some t" "should_retry t" and b: "(x, y) = attempt ev line sh"
  from b have "y = snd (attempt ev line sh)" by (metis snd_conv)
  with attempt_decreases(2) [OF a, of e ev line]
  show "((ev, line, handle_error e y), ev, line, sh) \<in> measure (\<lambda>(ev, line, sh). remaining sh)"
    by simp
qed

declare process_loop.simps [simp del]

text \<open>
  \<open>_process_input\<close>: the loop, then the final report when the task is not
  completed. Without a current task the first test of the loop condition raises.
\<close>

definition process_input :: "env \<Rightarrow> string \<Rightarrow> ClaudeShell \<Rightarrow> (error + unit) \<times> ClaudeShell" where
  "process_input ev line sh =
     (case current_task sh of
        None \<Rightarrow> (Inl (AttributeError ''should_retry''), sh)
      | Some t0 \<Rightarrow>
          (let sh1 = process_loop ev line sh in
           case current_task sh1 of
             None \<Rightarrow> (Inl (AttributeError ''completed''), sh1)
           | Some t \<Rightarrow>
               if \<not> completed t then (Inr (), sh1\<lparr>trace := trace sh1 @ [FailureReport]\<rparr>)
               else (Inr (), sh1)))"

text \<open>\<open>default\<close>, the handler of a line that is not a command of the shell.\<close>

definition default_handler :: "env \<Rightarrow> string \<Rightarrow> ClaudeShell \<Rightarrow> (error + unit) \<times> ClaudeShell" where
  "default_handler ev line sh =
     (if strip line = [] then (Inr (), sh)
      else
        (let sh1 = record_entry ev USER (JStr line) (JObj []) sh;
             sh2 = sh1\<lparr>current_task := Some ((new_TaskState (clock ev (ticks sh1)))\<lparr>in_progress := True\<rparr>),
                      ticks := Suc (ticks sh1)\<rparr>
         in process_input ev line sh2))"

section \<open>The specification's wording, and example values\<close>

text \<open>
  A whitespace-separated token of a string, as the specification words it: a
  non-empty stretch without whitespace that is bounded on each side by whitespace or
  by the end of the string.
\<close>

definition is_token :: "string \<Rightarrow> string \<Rightarrow> bool" where
  "is_token s tok =
     (tok \<noteq> [] \<and> (\<forall>c \<in> set tok. \<not> is_space c) \<and>
      (\<exists>pre post. s = pre @ tok @ post \<and> (pre = [] \<or> is_space (last pre)) \<and>
         (post = [] \<or> is_space (hd post))))"

text \<open>
  A timestamp, entries, an environment in which every request to the model fails and
  every command ends at once with return code 0, and a fresh shell: the values at
  which the theorems below are instantiated.
\<close>

definition example_time :: datetime where
  "example_time =
     \<lparr>year = 2024, month = 2, day = 29, hour = 13, minute = 5, second = 9, microsecond = 250\<rparr>"

definition example_entry :: "MessageType \<Rightarrow> string \<Rightarrow> ConversationEntry" where
  "example_entry ty s =
     \<lparr>entry_type = ty, content = JStr s, timestamp = example_time, metadata = JObj []\<rparr>"

definition example_env :: env where
  "example_env =
     \<lparr>clock = (\<lambda>n. example_time),
      messages_create = (\<lambda>sh msg. ApiRaises (ApiError ''connection refused'')),
      run_process = (\<lambda>cmd timeout fl. (Completes [] [] 0 (0, 0), fl)),
      json_loads = (\<lambda>s. None)\<rparr>"

definition example_shell :: ClaudeShell where
  "example_shell =
     \<lparr>conversation_manager = \<lparr>history = [], history_size = 10, history_file = NoFile\<rparr>,
      fs = \<lparr>files = Map.empty, io_log = []\<rparr>,
      current_task = None,
      command_timeout = 30,
      ticks = 0,
      trace = []\<rparr>"


definition example_task_shell :: ClaudeShell where
  "example_task_shell =
     example_shell\<lparr>fs := \<lparr>files = [''notes.txt'' \<mapsto> ''old''], io_log = []\<rparr>,
       current_task := Some ((new_TaskState example_time)\<lparr>in_progress := True\<rparr>)\<rparr>"

text \<open>
  A reply of the model that makes \<open>process_actions\<close> raise: a text that parses to a
  dictionary whose \<open>actions\<close> value cannot be iterated over. \<open>backoff_events\<close> lists
  what the engine does when every attempt from \<open>a + 1\<close> to \<open>m\<close> raises: a request
  per attempt, and after each attempt but the last a sleep of \<open>2 ^ (attempt - 1)\<close>
  seconds.
\<close>

definition bad_plan_reply :: "env \<Rightarrow> api_response \<Rightarrow> bool" where
  "bad_plan_reply ev r =
     (case r of
        ApiText txt \<Rightarrow>
          strip txt \<noteq> [] \<and>
          (case json_loads ev (strip txt) of
             Some (JObj plan) \<Rightarrow>
               (case map_of plan ''actions'' of Some acts \<Rightarrow> iterate acts = None | None \<Rightarrow> False)
           | _ \<Rightarrow> False)
      | _ \<Rightarrow> False)"

definition backoff_events :: "string \<Rightarrow> int \<Rightarrow> int \<Rightarrow> event list" where
  "backoff_events line a m =
     concat (map (\<lambda>i. Request line # (if i < m then [Sleep (2 ^ nat (i - 1))] else []))
       [a + 1..m])"

definition example_bad_plan_env :: env where
  "example_bad_plan_env =
     example_env\<lparr>messages_create := (\<lambda>sh msg. ApiText ''plan''),
                 json_loads := (\<lambda>s. Some (JObj [(''actions'', JNull)]))\<rparr>"

section \<open>Properties\<close>

subsection \<open>Timestamps survive \<open>isoformat\<close> and \<open>fromisoformat\<close>\<close>

lemma length_pad: "length (pad k n) = k"
  by (induction k arbitrary: n) auto

lemma digit_val_char_of: "d < 10 \<Longrightarrow> digit_val (char_of (48 + d)) = Some d"
  by (simp add: digit_val_def)

lemma parse_digits_append:
  "parse_digits a (xs @ ys) = Option.bind (parse_digits a xs) (\<lambda>b. parse_digits b ys)"
  by (induction xs arbitrary: a) (auto split: option.splits)

lemma parse_digits_pad: "parse_digits a (pad k n) = Some (a * 10 ^ k + n mod 10 ^ k)"
proof (induction k arbitrary: n a)
  case 0
  then show ?case by simp
next
  case (Suc k)
  have "n div 10 mod 10 ^ k * 10 + n mod 10 = n mod (10 * 10 ^ k)"
    by (simp add: mod_mult2_eq mult.commute)
  then show ?case
    by (simp add: parse_digits_append Suc.IH digit_val_char_of algebra_simps)
qed

lemma parse_pad: "n < 10 ^ k \<Longrightarrow> parse_digits 0 (pad k n) = Some n"
  by (simp add: parse_digits_pad)

lemma days_in_month_le: "days_in_month y m \<le> 31"
  by (simp add: days_in_month_def)

lemma fromisoformat_isoformat:
  assumes "valid_datetime d"
  shows "fromisoformat (isoformat d) = Some d"
proof -
  have dd: "day d \<le> 31"
    using assms days_in_month_le [of "year d" "month d"] by (simp add: valid_datetime_def)
  have p: "parse_digits 0 (pad 4 (year d)) = Some (year d)"
    "parse_digits 0 (pad 2 (month d)) = Some (month d)"
    "parse_digits 0 (pad 2 (day d)) = Some (day d)"
    "parse_digits 0 (pad 2 (hour d)) = Some (hour d)"
    "parse_digits 0 (pad 2 (minute d)) = Some (minute d)"
    "parse_digits 0 (pad 2 (second d)) = Some (second d)"
    "parse_digits 0 (pad 6 (microsecond d)) = Some (microsecond d)"
    using assms dd by (simp_all add: parse_pad valid_datetime_def)
  have eq: "\<lparr>year = year d, month = month d, day = day d, hour = hour d,
      minute = minute d, second = second d, microsecond = microsecond d\<rparr> = d"
    by simp
  show ?thesis
  proof (cases "microsecond d = 0")
    case True
    with eq have "\<lparr>year = year d, month = month d, day = day d, hour = hour d,
      minute = minute d, second = second d, microsecond = 0\<rparr> = d"
      by simp
    with True assms p show ?thesis
      by (simp add: fromisoformat_def isoformat_def length_pad nth_append Let_def valid_datetime_def)
  next
    case False
    with assms p eq show ?thesis
      by (simp add: fromisoformat_def isoformat_def length_pad nth_append Let_def valid_datetime_def)
  qed
qed


lemma entry_roundtrip:
  "valid_datetime (timestamp e) \<Longrightarrow> entry_of_json (entry_to_json e) = Some e"
  by (cases "entry_type e")
     (simp_all add: entry_of_json_def entry_to_json_def message_type_of_def fromisoformat_isoformat)

lemma load_entries_roundtrip:
  "\<forall>e \<in> set es. valid_datetime (timestamp e) \<Longrightarrow> load_entries (map entry_to_json es) = Some es"
  by (induction es) (simp_all add: entry_roundtrip)

subsection \<open>The tokens of \<open>split\<close>\<close>

lemma split_all_space: "\<forall>c \<in> set s. is_space c \<Longrightarrow> split s = []"
proof -
  assume "\<forall>c \<in> set s. is_space c"
  then have d: "dropWhile is_space s = []" by simp
  show ?thesis by (subst split.simps) (simp add: d)
qed

lemma first_run:
  assumes "\<forall>c \<in> set tok. \<not> is_space c" "rest = [] \<or> is_space (hd rest)"
  shows "takeWhile (\<lambda>x. \<not> is_space x) (tok @ rest) = tok"
  using assms by (cases rest) (simp_all add: takeWhile_tail)

lemma split_unfold:
  assumes "\<forall>c \<in> set ws. is_space c" "tok \<noteq> []" "\<forall>c \<in> set tok. \<not> is_space c"
    "rest = [] \<or> is_space (hd rest)"
  shows "split (ws @ tok @ rest) = tok # split rest"
proof -
  obtain c cs where tok: "tok = c # cs" using assms(2) by (cases tok) auto
  have d: "dropWhile is_space (ws @ tok @ rest) = tok @ rest"
    using assms(1,3) tok by simp
  have t: "takeWhile (\<lambda>x. \<not> is_space x) (tok @ rest) = tok"
    using assms(3,4) by (cases rest) (simp_all add: takeWhile_tail)
  have r: "dropWhile (\<lambda>x. \<not> is_space x) (tok @ rest) = rest"
    using assms(3,4) by (cases rest) simp_all
  show ?thesis
    using d t r tok by (subst split.simps) (simp del: takeWhile.simps dropWhile.simps)
qed

lemma decompose:
  "dropWhile is_space s = c # cs \<Longrightarrow>
   \<exists>ws tok rest. s = ws @ tok @ rest \<and> (\<forall>c \<in> set ws. is_space c) \<and> tok \<noteq> [] \<and>
     (\<forall>c \<in> set tok. \<not> is_space c) \<and> (rest = [] \<or> is_space (hd rest)) \<and>
     tok = takeWhile (\<lambda>x. \<not> is_space x) (c # cs) \<and> rest = dropWhile (\<lambda>x. \<not> is_space x) (c # cs)"
proof -
  assume a: "dropWhile is_space s = c # cs"
  let ?ws = "takeWhile is_space s"
  let ?tok = "takeWhile (\<lambda>x. \<not> is_space x) (c # cs)"
  let ?rest = "dropWhile (\<lambda>x. \<not> is_space x) (c # cs)"
  have nc: "\<not> is_space c" using a hd_dropWhile [of is_space s] by auto
  have "s = ?ws @ ?tok @ ?rest"
    using a takeWhile_dropWhile_id [of is_space s] by (simp del: takeWhile.simps dropWhile.simps)
  moreover have "\<forall>c \<in> set ?ws. is_space c" by (auto dest: set_takeWhileD)
  moreover have "?tok \<noteq> []" using nc by simp
  moreover have "\<forall>c \<in> set ?tok. \<not> is_space c" by (auto dest: set_takeWhileD)
  moreover have "?rest = [] \<or> is_space (hd ?rest)"
    using hd_dropWhile [of "\<lambda>x. \<not> is_space x" "c # cs"] by blast
  ultimately show ?thesis by blast
qed

lemma token_shape:
  assumes ws: "\<forall>c \<in> set ws. is_space c" and t1: "tok1 \<noteq> []" "\<forall>c \<in> set tok1. \<not> is_space c"
    and r: "rest = [] \<or> is_space (hd rest)"
  shows "is_token (ws @ tok1 @ rest) tok \<longleftrightarrow> tok = tok1 \<or> is_token rest tok"
proof
  assume "tok = tok1 \<or> is_token rest tok"
  then show "is_token (ws @ tok1 @ rest) tok"
  proof
    assume "tok = tok1"
    then show ?thesis
      unfolding is_token_def using ws t1 r
      by (metis last_in_set)
  next
    assume "is_token rest tok"
    then obtain pre post where p: "tok \<noteq> []" "\<forall>c \<in> set tok. \<not> is_space c"
      "rest = pre @ tok @ post" "pre = [] \<or> is_space (last pre)" "post = [] \<or> is_space (hd post)"
      unfolding is_token_def by blast
    have "pre \<noteq> []"
    proof
      assume "pre = []"
      with p(1,3) r have "is_space (hd tok)" by (cases tok) auto
      with p(1,2) show False by (cases tok) auto
    qed
    with p(4) have "is_space (last (ws @ tok1 @ pre))" by simp
    moreover have "ws @ tok1 @ rest = (ws @ tok1 @ pre) @ tok @ post" using p(3) by simp
    ultimately show ?thesis
      unfolding is_token_def using p(1,2,5) by blast
  qed
next
  assume "is_token (ws @ tok1 @ rest) tok"
  then obtain pre post where p: "tok \<noteq> []" "\<forall>c \<in> set tok. \<not> is_space c"
    "ws @ tok1 @ rest = pre @ tok @ post" "pre = [] \<or> is_space (last pre)" "post = [] \<or> is_space (hd post)"
    unfolding is_token_def by blast
  have same_start: "tok = tok1" if "tok1 @ rest = tok @ post"
  proof -
    have "tok1 = takeWhile (\<lambda>x. \<not> is_space x) (tok1 @ rest)"
      using first_run [OF t1(2) r] by simp
    also have "\<dots> = takeWhile (\<lambda>x. \<not> is_space x) (tok @ post)"
      using that by simp
    also have "\<dots> = tok"
      using first_run [OF p(2) p(5)] .
    finally show ?thesis by simp
  qed
  from p(3) obtain us where
    "(ws = pre @ us \<and> us @ tok1 @ rest = tok @ post) \<or> (ws @ us = pre \<and> tok1 @ rest = us @ tok @ post)"
    unfolding append_eq_append_conv2 by blast
  then show "tok = tok1 \<or> is_token rest tok"
  proof
    assume A: "ws = pre @ us \<and> us @ tok1 @ rest = tok @ post"
    have "us = []"
    proof (rule ccontr)
      assume "us \<noteq> []"
      with A p(1) have "hd tok = hd us" by (cases us; cases tok) auto
      moreover have "hd us \<in> set ws" using A \<open>us \<noteq> []\<close> by (cases us) auto
      moreover have "hd tok \<in> set tok" using p(1) by simp
      ultimately show False using ws p(2) by metis
    qed
    with A same_start show ?thesis by simp
  next
    assume B: "ws @ us = pre \<and> tok1 @ rest = us @ tok @ post"
    show ?thesis
    proof (cases "us = []")
      case True
      with B same_start show ?thesis by simp
    next
      case False
      with B p(4) have sp: "is_space (last us)" by auto
      from B obtain vs where
        "(tok1 = us @ vs \<and> vs @ rest = tok @ post) \<or> (tok1 @ vs = us \<and> rest = vs @ tok @ post)"
        unfolding append_eq_append_conv2 by blast
      then show ?thesis
      proof
        assume "tok1 = us @ vs \<and> vs @ rest = tok @ post"
        with False have "last us \<in> set tok1" by simp
        with sp t1(2) show ?thesis by blast
      next
        assume C: "tok1 @ vs = us \<and> rest = vs @ tok @ post"
        have "vs \<noteq> []"
        proof
          assume "vs = []"
          with C t1(1) have "last us \<in> set tok1" by auto
          with sp t1(2) show False by blast
        qed
        with C sp have "is_space (last vs)" by auto
        with C p(1,2,5) show ?thesis unfolding is_token_def by blast
      qed
    qed
  qed
qed

lemma split_tokens: "tok \<in> set (split s) \<longleftrightarrow> is_token s tok"
proof (induction s rule: split.induct)
  case (1 s)
  show ?case
  proof (cases "dropWhile is_space s")
    case Nil
    then have all: "\<forall>c \<in> set s. is_space c" by simp
    have "\<not> is_token s tok"
    proof
      assume "is_token s tok"
      then obtain pre post where "tok \<noteq> []" "\<forall>c \<in> set tok. \<not> is_space c" "s = pre @ tok @ post"
        unfolding is_token_def by blast
      then have "hd tok \<in> set s" "\<not> is_space (hd tok)" by (cases tok; simp)+
      with all show False by blast
    qed
    with all show ?thesis by (simp add: split_all_space)
  next
    case (Cons c cs)
    from decompose [OF Cons] obtain ws tok1 rest where d:
      "s = ws @ tok1 @ rest" "\<forall>c \<in> set ws. is_space c" "tok1 \<noteq> []"
      "\<forall>c \<in> set tok1. \<not> is_space c" "rest = [] \<or> is_space (hd rest)"
      "rest = dropWhile (\<lambda>x. \<not> is_space x) (c # cs)"
      by blast
    have IH: "tok \<in> set (split rest) \<longleftrightarrow> is_token rest tok"
      using 1 [OF Cons] d(6) by simp
    have "split s = tok1 # split rest"
      using split_unfold [OF d(2,3,4,5)] d(1) by simp
    then show ?thesis
      using IH token_shape [OF d(2,3,4,5), of tok] d(1) by auto
  qed
qed

lemma blocked_iff:
  "(\<exists>b \<in> blocked_commands. b \<in> set (split cmd)) \<longleftrightarrow> (\<exists>tok. is_token cmd tok \<and> tok \<in> blocked_commands)"
  by (auto simp: split_tokens)

lemma execute_command_spawns:
  "\<not> (\<exists>b \<in> blocked_commands. b \<in> set (split cmd)) \<Longrightarrow>
   \<exists>rest. trace (snd (execute_command ev cmd t sh)) = trace sh @ Spawn cmd # rest"
  by (simp add: execute_command_def Let_def split: prod.splits process_result.splits)

text \<open>
  Claim C2. \<open>execute_command\<close> fails with the validation error, leaving the state as
  it was (no process is spawned), exactly when some whitespace-separated token of the
  command is one of \<open>rm\<close>, \<open>sudo\<close>, \<open>su\<close>, \<open>dd\<close>.
\<close>

theorem execute_command_blocked_iff:
  "(\<exists>tok. is_token cmd tok \<and> tok \<in> blocked_commands) \<longleftrightarrow>
   execute_command ev cmd t sh =
     (Inl (ValueError (''Command contains blocked terms: '' @ cmd)), sh)"
proof
  assume "\<exists>tok. is_token cmd tok \<and> tok \<in> blocked_commands"
  then have "\<exists>b \<in> blocked_commands. b \<in> set (split cmd)"
    by (simp add: blocked_iff)
  then show "execute_command ev cmd t sh =
     (Inl (ValueError (''Command contains blocked terms: '' @ cmd)), sh)"
    by (simp add: execute_command_def)
next
  assume r: "execute_command ev cmd t sh =
     (Inl (ValueError (''Command contains blocked terms: '' @ cmd)), sh)"
  have "\<exists>b \<in> blocked_commands. b \<in> set (split cmd)"
  proof (rule ccontr)
    assume "\<not> (\<exists>b \<in> blocked_commands. b \<in> set (split cmd))"
    from execute_command_spawns [OF this, of ev t sh] r
    show False by simp
  qed
  then show "\<exists>tok. is_token cmd tok \<and> tok \<in> blocked_commands"
    by (simp add: blocked_iff)
qed

theorem execute_command_blocked_iff_witness:
  "execute_command example_env ''sudo ls'' (JInt 30) example_shell =
     (Inl (ValueError ''Command contains blocked terms: sudo ls''), example_shell)"
proof -
  have "''sudo ls'' = [] @ ''sudo'' @ '' ls''" by simp
  then have "is_token ''sudo ls'' ''sudo''"
    unfolding is_token_def by (intro conjI exI [of _ "[]"] exI [of _ "'' ls''"]) (simp_all add: is_space_def)
  then have "\<exists>tok. is_token ''sudo ls'' tok \<and> tok \<in> blocked_commands"
    by (auto simp: blocked_commands_def)
  then show ?thesis
    using execute_command_blocked_iff [of "''sudo ls''" example_env "JInt 30" example_shell]
    by simp
qed

text \<open>
  The untimed part of claim C5: when no token is blocked and the process does not
  finish within the timeout, the process is killed and the \<open>TimeoutError\<close> carries
  the timeout and the command.
\<close>

theorem execute_command_timeout:
  assumes "\<not> (\<exists>tok. is_token cmd tok \<and> tok \<in> blocked_commands)"
    and "fst (run_process ev cmd timeout (files (fs sh))) = TimesOut"
  shows "fst (execute_command ev cmd timeout sh) = Inl (TimeoutError timeout cmd)
         \<and> trace (snd (execute_command ev cmd timeout sh)) = trace sh @ [Spawn cmd, Kill cmd]"
proof -
  obtain fl where r: "run_process ev cmd timeout (files (fs sh)) = (TimesOut, fl)"
    using assms(2) by (cases "run_process ev cmd timeout (files (fs sh))") simp
  have "\<not> (\<exists>b \<in> blocked_commands. b \<in> set (split cmd))"
    using assms(1) by (simp add: blocked_iff)
  then show ?thesis
    using r by (simp add: execute_command_def Let_def)
qed

subsection \<open>Conversation store\<close>

lemma history_size_add_entry [simp]: "history_size (add_entry e cm) = history_size cm"
  by (simp add: add_entry_def save_history_def Let_def)

lemma history_add_entry:
  "history (add_entry e cm) =
     (if int (length (history cm)) + 1 > history_size cm then tl (history cm @ [e])
      else history cm @ [e])"
  by (simp add: add_entry_def save_history_def Let_def)

lemma history_fold_add_entry:
  "int (length (history cm)) \<le> history_size cm \<Longrightarrow>
   history (fold add_entry es cm) =
     drop (length (history cm) + length es - nat (history_size cm)) (history cm @ es)"
proof (induction es arbitrary: cm)
  case Nil
  then show ?case by simp
next
  case (Cons e es)
  let ?cm = "add_entry e cm"
  show ?case
  proof (cases "int (length (history cm)) = history_size cm")
    case True
    then have h: "history ?cm = tl (history cm @ [e])" by (simp add: history_add_entry)
    then have l: "int (length (history ?cm)) = history_size ?cm" using True by simp
    have n: "nat (history_size cm) = length (history cm)" using True by (metis nat_int)
    have IH': "history (fold add_entry es ?cm) =
        drop (length (history ?cm) + length es - nat (history_size ?cm)) (history ?cm @ es)"
      using l by (intro Cons.IH) simp
    have e1: "length (history ?cm) + length es - nat (history_size ?cm) = length es"
      using h n by simp
    have e2: "history ?cm @ es = tl (history cm @ e # es)"
      using h by (cases "history cm") simp_all
    have e3: "length (history cm) + length (e # es) - nat (history_size cm) = Suc (length es)"
      using n by simp
    have "history (fold add_entry (e # es) cm) = history (fold add_entry es ?cm)" by simp
    also have "\<dots> = drop (length es) (tl (history cm @ e # es))"
      unfolding IH' e1 e2 ..
    also have "\<dots> = drop (Suc (length es)) (history cm @ e # es)"
      by (simp only: drop_Suc)
    finally show ?thesis unfolding e3 .
  next
    case False
    with Cons.prems have lt: "int (length (history cm)) < history_size cm" by simp
    then have h: "history ?cm = history cm @ [e]" by (simp add: history_add_entry)
    have "history (fold add_entry es ?cm) =
        drop (length (history ?cm) + length es - nat (history_size ?cm)) (history ?cm @ es)"
      using lt h by (intro Cons.IH) simp
    then show ?thesis using h by simp
  qed
qed

text \<open>
  Claim C6. On a history within its capacity, \<open>add_entry\<close> appends the entry and, when
  the capacity was already reached, drops exactly the oldest entry; the result is
  within the capacity; and appending \<open>N + 1\<close> entries to an empty history of capacity
  \<open>N\<close> leaves the last \<open>N\<close> of them, the first one evicted.
\<close>

theorem add_entry_fifo:
  assumes "int (length (history cm)) \<le> history_size cm"
  shows "history (add_entry e cm) =
           (if int (length (history cm)) = history_size cm then tl (history cm @ [e])
            else history cm @ [e])
         \<and> int (length (history (add_entry e cm))) \<le> history_size cm
         \<and> (history cm = [] \<and> int (length es) = history_size cm + 1 \<longrightarrow>
              history (fold add_entry es cm) = tl es \<and>
              int (length (history (fold add_entry es cm))) = history_size cm)"
proof -
  have a: "history (add_entry e cm) =
           (if int (length (history cm)) = history_size cm then tl (history cm @ [e])
            else history cm @ [e])"
    using assms by (auto simp: history_add_entry)
  have b: "int (length (history (add_entry e cm))) \<le> history_size cm"
    using assms by (auto simp: a)
  have c: "history (fold add_entry es cm) = tl es \<and>
      int (length (history (fold add_entry es cm))) = history_size cm"
    if "history cm = []" "int (length es) = history_size cm + 1"
  proof -
    have "0 \<le> history_size cm" using assms by linarith
    then obtain k where k: "history_size cm = int k" by (metis nat_0_le)
    have "history (fold add_entry es cm) = drop (length es - nat (history_size cm)) es"
      using history_fold_add_entry [OF assms, of es] that by simp
    moreover have len: "length es = k + 1" using that k by linarith
    then have "length es - nat (history_size cm) = 1" using k by simp
    ultimately have "history (fold add_entry es cm) = tl es" by (simp add: drop_Suc)
    then show ?thesis using k len by simp
  qed
  from a b c show ?thesis by blast
qed

theorem add_entry_fifo_witness:
  "history (fold add_entry
      [example_entry USER ''a'', example_entry ASSISTANT ''b'', example_entry USER ''c'']
      \<lparr>history = [], history_size = 2, history_file = NoFile\<rparr>) =
   [example_entry ASSISTANT ''b'', example_entry USER ''c'']"
  using add_entry_fifo [of "\<lparr>history = [], history_size = 2, history_file = NoFile\<rparr>"
      "example_entry USER ''a''"
      "[example_entry USER ''a'', example_entry ASSISTANT ''b'', example_entry USER ''c'']"]
  by simp

text \<open>
  Claim C7. Saving a history and loading it again, in the same manager or in a new one
  after a restart, gives back the same entries in the same order, with their types,
  contents, timestamps and metadata.
\<close>

theorem save_load_roundtrip:
  assumes "\<forall>e \<in> set (history cm). valid_datetime (timestamp e)"
  shows "history (load_history (save_history cm)) = history cm \<and>
         history (new_conversation_manager n (history_file (save_history cm))) = history cm"
  using assms
  by (simp add: load_history_def save_history_def new_conversation_manager_def load_entries_roundtrip)

lemma valid_example_time: "valid_datetime example_time"
  by (simp add: valid_datetime_def example_time_def days_in_month_def is_leap_def)

theorem save_load_roundtrip_witness:
  "history (new_conversation_manager 10 (history_file (save_history
      \<lparr>history = [example_entry USER ''hello'', example_entry ASSISTANT ''hi''],
       history_size = 10, history_file = NoFile\<rparr>))) =
   [example_entry USER ''hello'', example_entry ASSISTANT ''hi'']"
  using save_load_roundtrip [of "\<lparr>history = [example_entry USER ''hello'', example_entry ASSISTANT ''hi''],
       history_size = 10, history_file = NoFile\<rparr>" 10]
  by (simp add: example_entry_def valid_example_time)

text \<open>
  Claim C9. Loading takes every entry of the file, whatever the capacity; when the
  history is longer than the capacity, \<open>add_entry\<close> leaves its length as it is; and
  after \<open>add_entry\<close> the length is within the capacity exactly when it was before.
\<close>

theorem load_history_not_truncated:
  assumes "\<forall>e \<in> set es. valid_datetime (timestamp e)"
  shows "history (new_conversation_manager n (Document (JArr (map entry_to_json es)))) = es
         \<and> (history_size cm < int (length (history cm)) \<longrightarrow>
              length (history (add_entry e cm)) = length (history cm))
         \<and> (int (length (history (add_entry e cm))) \<le> history_size cm \<longleftrightarrow>
              int (length (history cm)) \<le> history_size cm)"
  using assms
  by (auto simp: load_history_def new_conversation_manager_def load_entries_roundtrip
        history_add_entry)

theorem load_history_not_truncated_witness:
  "length (history (new_conversation_manager 1 (Document (JArr (map entry_to_json
      [example_entry USER ''a'', example_entry ASSISTANT ''b'', example_entry USER ''c''])))))
     = 3
   \<and> length (history (add_entry (example_entry USER ''d'')
        (new_conversation_manager 1 (Document (JArr (map entry_to_json
      [example_entry USER ''a'', example_entry ASSISTANT ''b'', example_entry USER ''c'']))))))
     = 3"
proof -
  let ?es = "[example_entry USER ''a'', example_entry ASSISTANT ''b'', example_entry USER ''c'']"
  let ?cm = "new_conversation_manager 1 (Document (JArr (map entry_to_json ?es)))"
  have v: "\<forall>e \<in> set ?es. valid_datetime (timestamp e)"
    by (simp add: example_entry_def valid_example_time)
  have hs: "history_size ?cm = 1"
    by (simp add: new_conversation_manager_def load_history_def split: option.splits)
  from load_history_not_truncated [OF v, of 1 ?cm "example_entry USER ''d''"] hs
  show ?thesis by simp
qed

subsection \<open>File mutation guard\<close>

text \<open>
  Claim C8. \<open>create_file\<close> on a path that exists returns \<open>False\<close> and leaves the
  files and the list of reads and writes as they were: nothing is overwritten and no
  backup is written.
\<close>

theorem create_file_existing:
  assumes "files fsys p = Some existing"
  shows "create_file p text_opt fsys = (False, fsys)"
  using assms by (simp add: create_file_def)

theorem create_file_existing_witness:
  "create_file ''notes.txt'' (Some ''new'') \<lparr>files = [''notes.txt'' \<mapsto> ''old''], io_log = []\<rparr> =
     (False, \<lparr>files = [''notes.txt'' \<mapsto> ''old''], io_log = []\<rparr>)"
  using create_file_existing [of "\<lparr>files = [''notes.txt'' \<mapsto> ''old''], io_log = []\<rparr>" "''notes.txt''" "''old''" "Some ''new''"]
  by simp

lemma create_backup_target [simp]: "files (create_backup now p fsys) p = files fsys p"
  by (auto simp: create_backup_def split: option.splits)

lemma create_backup_log:
  "files fsys p = Some bytes \<Longrightarrow>
   io_log (create_backup now p fsys) = io_log fsys @ [ReadOp p, WriteOp (backup_path now p)]"
  by (simp add: create_backup_def)

text \<open>
  Claim C3, at an input where the code and the claim part: \<open>aa\<close> stands at two
  positions of \<open>aaa\<close>, \<open>count\<close> finds one of them, and \<open>update_file\<close> rewrites the
  file and reports success.
\<close>

theorem update_file_overlapping_match:
  "fst (update_file example_time ''a.txt'' (Some ''aa'') (Some ''b'')
          \<lparr>files = [''a.txt'' \<mapsto> ''aaa''], io_log = []\<rparr>) = True
   \<and> files (snd (update_file example_time ''a.txt'' (Some ''aa'') (Some ''b'')
          \<lparr>files = [''a.txt'' \<mapsto> ''aaa''], io_log = []\<rparr>)) ''a.txt'' = Some ''ba''
   \<and> occurrences ''aaa'' ''aa'' = [0, 1]"
  by (simp add: update_file_def create_backup_def Let_def occurrences_def upt_rec)

text \<open>
  What \<open>update_file\<close> does with two strings: it succeeds exactly when the file exists
  and \<open>count\<close> finds one occurrence.
\<close>

theorem update_file_succeeds_iff_count:
  "fst (update_file now p (Some old) (Some new) fsys) \<longleftrightarrow>
     (\<exists>original. files fsys p = Some original \<and> count original old = 1)"
  by (auto simp: update_file_def Let_def split: option.splits)

text \<open>A failed update leaves the content of the target as it was.\<close>

theorem update_file_failure_keeps_target:
  assumes "\<not> fst (update_file now p old_s new_s fsys)"
  shows "files (snd (update_file now p old_s new_s fsys)) p = files fsys p"
  using assms by (auto simp: update_file_def Let_def split: option.splits if_splits)

text \<open>The backup is never the target itself: its name is longer than the target's.\<close>

lemma pad_no_slash: "CHR ''/'' \<notin> set (pad k n)"
proof (induction k arbitrary: n)
  case 0
  then show ?case by simp
next
  case (Suc k)
  have "char_of (48 + n mod 10 :: nat) \<noteq> CHR ''/''"
  proof
    assume "char_of (48 + n mod 10 :: nat) = CHR ''/''"
    then have "of_char (char_of (48 + n mod 10 :: nat)) = (of_char (CHR ''/'') :: nat)" by simp
    then show False by simp
  qed
  with Suc show ?case by auto
qed

lemma strftime_no_slash: "CHR ''/'' \<notin> set (strftime d)"
  by (simp add: strftime_def pad_no_slash)

lemma path_name_no_slash: "CHR ''/'' \<notin> set (path_name p)"
  by (auto simp: path_name_def dest: set_takeWhileD)

lemma path_name_after_slash:
  assumes "CHR ''/'' \<notin> set b"
  shows "path_name (a @ CHR ''/'' # b) = b"
proof -
  have t: "takeWhile (\<lambda>c. c \<noteq> CHR ''/'') (rev b) = rev b"
    using assms by (intro takeWhile_eq_all_conv [THEN iffD2]) auto
  show ?thesis
    by (simp add: path_name_def takeWhile_tail t)
qed

lemma backup_path_neq: "backup_path now p \<noteq> p"
proof
  assume eq: "backup_path now p = p"
  let ?b = "path_name p @ ''.'' @ strftime now @ ''.bak''"
  have "CHR ''/'' \<notin> set ?b"
    using path_name_no_slash [of p] strftime_no_slash [of now] by simp
  then have "path_name (''backups'' @ CHR ''/'' # ?b) = ?b"
    by (rule path_name_after_slash)
  moreover have "backup_path now p = ''backups'' @ CHR ''/'' # ?b"
    by (simp add: backup_path_def)
  ultimately have "path_name p = ?b" using eq by simp
  then have "length (path_name p) = length ?b" by simp
  then show False by simp
qed

text \<open>
  For a file that exists the backup is read and written before the target is read for
  the check, whatever the outcome, and the backup holds the content from before the
  update.
\<close>

theorem update_file_backup_first:
  assumes "files fsys p = Some original"
  shows "(\<exists>rest. io_log (snd (update_file now p old_s new_s fsys)) =
            io_log fsys @ [ReadOp p, WriteOp (backup_path now p), ReadOp p] @ rest)
         \<and> files (snd (update_file now p old_s new_s fsys)) (backup_path now p) = Some original"
  using assms backup_path_neq [of now p]
  by (auto simp: update_file_def Let_def create_backup_def split: option.splits)

text \<open>
  \<open>count\<close> against the positions of the specification: it never finds more than
  there are, and it finds none exactly when there is none. So one direction of claim
  C3 holds: with exactly one position the update succeeds, with none it fails.
\<close>

lemma occurrences_Nil: "occurrences [] old = (if old = [] then [0] else [])"
  by (simp add: occurrences_def)

lemma occurrences_Cons:
  "occurrences (c # cs) old =
     (if prefix old (c # cs) then [0] else []) @ map Suc (occurrences cs old)"
proof -
  have "[0..<Suc (length (c # cs))] = 0 # map Suc [0..<Suc (length cs)]"
    by (simp add: upt_conv_Cons map_Suc_upt del: upt_Suc)
  then show ?thesis
    unfolding occurrences_def by (simp add: filter_map comp_def del: upt_Suc)
qed

lemma occurrences_drop_le:
  "length (occurrences (drop k s) old) \<le> length (occurrences s old)"
proof (induction k arbitrary: s)
  case 0
  then show ?case by simp
next
  case (Suc k)
  show ?case
  proof (cases s)
    case Nil
    then show ?thesis by simp
  next
    case (Cons c cs)
    have "length (occurrences (drop k cs) old) \<le> length (occurrences cs old)" by (rule Suc.IH)
    then show ?thesis using Cons by (simp add: occurrences_Cons)
  qed
qed

lemma count_le_occurrences: "count s old \<le> length (occurrences s old)"
proof (induction s old rule: count.induct)
  case (1 sub)
  then show ?case by (simp add: occurrences_Nil)
next
  case (2 c cs sub)
  show ?case
  proof (cases "sub = []")
    case True
    with 2 show ?thesis by (simp add: occurrences_Cons)
  next
    case False
    show ?thesis
    proof (cases "prefix sub (c # cs)")
      case True
      obtain n where n: "length sub = Suc n" using False by (cases sub) auto
      have "count (drop (length sub) (c # cs)) sub \<le> length (occurrences (drop (length sub) (c # cs)) sub)"
        using 2(2) [OF False True] .
      also have "\<dots> = length (occurrences (drop n cs) sub)" using n by simp
      also have "\<dots> \<le> length (occurrences cs sub)" by (rule occurrences_drop_le)
      finally show ?thesis using False True by (simp add: occurrences_Cons)
    next
      case np: False
      with 2(3) [OF False np] False show ?thesis by (simp add: occurrences_Cons)
    qed
  qed
qed

lemma count_zero_iff: "count s old = 0 \<longleftrightarrow> occurrences s old = []"
proof (induction s old rule: count.induct)
  case (1 sub)
  then show ?case by (simp add: occurrences_Nil)
next
  case (2 c cs sub)
  show ?case
  proof (cases "sub = []")
    case True
    then show ?thesis by (simp add: occurrences_Cons)
  next
    case False
    show ?thesis
    proof (cases "prefix sub (c # cs)")
      case True
      with False show ?thesis by (simp add: occurrences_Cons)
    next
      case np: False
      with 2(3) [OF False np] False show ?thesis by (simp add: occurrences_Cons)
    qed
  qed
qed

theorem update_file_single_occurrence:
  assumes "files fsys p = Some original"
  shows "(length (occurrences original old) = 1 \<longrightarrow>
            fst (update_file now p (Some old) (Some new) fsys))
         \<and> (occurrences original old = [] \<longrightarrow>
            \<not> fst (update_file now p (Some old) (Some new) fsys))"
proof -
  have "count original old = 1" if "length (occurrences original old) = 1"
    using that count_le_occurrences [of original old] count_zero_iff [of original old]
    by (cases "count original old") auto
  moreover have "count original old \<noteq> 1" if "occurrences original old = []"
    using that count_zero_iff [of original old] by simp
  ultimately show ?thesis
    using assms by (simp add: update_file_succeeds_iff_count)
qed

subsection \<open>Blank input\<close>

lemma strip_all_space:
  assumes "\<forall>c \<in> set s. is_space c"
  shows "strip s = []"
proof -
  from assms have d: "dropWhile is_space s = []" by simp
  show ?thesis by (simp add: strip_def d)
qed

text \<open>
  Claim C10. For a line of whitespace only (or the empty line) \<open>default\<close> returns at
  once and the whole state is as before: no entry, no task, no request, nothing saved.
\<close>

theorem default_handler_blank:
  assumes "\<forall>c \<in> set line. is_space c"
  shows "default_handler ev line sh = (Inr (), sh)"
  using assms by (simp add: default_handler_def strip_all_space)

theorem default_handler_blank_witness:
  "default_handler example_env [CHR '' '', CHR 0x09, CHR '' ''] example_shell = (Inr (), example_shell)"
  using default_handler_blank [of "[CHR '' '', CHR 0x09, CHR '' '']" example_env example_shell]
  by (simp add: is_space_def)

subsection \<open>Action plan interpreter\<close>





subsection \<open>Task retry engine\<close>

lemma attempt_api_raises:
  assumes api: "\<forall>s m r. messages_create ev s m \<noteq> ApiText r"
    and task: "current_task sh = Some t"
    and ctx: "context_renders (conversation_manager sh)"
  shows "\<exists>sh'. attempt ev line sh = (Continue, sh') \<and>
           trace sh' = trace sh @ [Request line] \<and>
           conversation_manager sh' = conversation_manager sh \<and>
           current_task sh' =
              Some (t\<lparr>attempts := attempts t + 1,
                      last_error := Some (Literal ''No response received'')\<rparr>)"
proof -
  let ?sh = "sh\<lparr>current_task := Some (t\<lparr>attempts := attempts t + 1\<rparr>)\<rparr>"
  from api have "\<forall>r. messages_create ev ?sh line \<noteq> ApiText r" by blast
  then show ?thesis
    using task ctx
    by (cases "messages_create ev ?sh line")
       (simp_all add: attempt_def send_to_anthropic_def set_last_error_def Let_def)
qed

lemma loop_api_raises:
  assumes api: "\<forall>s m r. messages_create ev s m \<noteq> ApiText r"
  shows "nat (max_attempts t - attempts t) = k \<Longrightarrow> current_task sh = Some t \<Longrightarrow>
         in_progress t \<Longrightarrow> \<not> completed t \<Longrightarrow> attempts t \<le> max_attempts t \<Longrightarrow>
         context_renders (conversation_manager sh) \<Longrightarrow>
         trace (process_loop ev line sh) = trace sh @ replicate k (Request line) \<and>
         current_task (process_loop ev line sh) =
            Some (if k = 0 then t
                  else t\<lparr>attempts := max_attempts t,
                         last_error := Some (Literal ''No response received'')\<rparr>)"
proof (induction k arbitrary: sh t)
  case 0
  then have "\<not> should_retry t" by (simp add: should_retry_def)
  then show ?case
    using 0 by (subst (1 2) process_loop.simps) simp
next
  case (Suc k)
  then have sr: "should_retry t" by (simp add: should_retry_def)
  from attempt_api_raises [OF api Suc.prems(2) Suc.prems(6), of line]
  obtain sh' where a: "attempt ev line sh = (Continue, sh')"
    "trace sh' = trace sh @ [Request line]"
    "conversation_manager sh' = conversation_manager sh"
    "current_task sh' = Some (t\<lparr>attempts := attempts t + 1,
        last_error := Some (Literal ''No response received'')\<rparr>)"
    by blast
  let ?t = "t\<lparr>attempts := attempts t + 1, last_error := Some (Literal ''No response received'')\<rparr>"
  have step: "process_loop ev line sh = process_loop ev line sh'"
    using Suc.prems(2) sr a(1) by (subst process_loop.simps) simp
  have IH: "trace (process_loop ev line sh') = trace sh' @ replicate k (Request line) \<and>
         current_task (process_loop ev line sh') =
            Some (if k = 0 then ?t
                  else ?t\<lparr>attempts := max_attempts ?t,
                         last_error := Some (Literal ''No response received'')\<rparr>)"
    using Suc.prems a by (intro Suc.IH) auto
  have "k = 0 \<Longrightarrow> attempts t + 1 = max_attempts t" using Suc.prems(1) by linarith
  with IH show ?case
    using step a(2) by (auto simp: replicate_app_Cons_same)
qed


lemma map_of_keys: "map_of kvs k = Some v \<Longrightarrow> k \<in> fst ` set kvs"
  by (metis domI dom_map_of_conv_image_fst)

lemma attempt_bad_plan:
  assumes api: "\<forall>s m. bad_plan_reply ev (messages_create ev s m)"
    and task: "current_task sh = Some t"
    and ctx: "context_renders (conversation_manager sh)"
  shows "\<exists>sh'. attempt ev line sh = (Raised (TypeError ''object is not iterable''), sh') \<and>
           trace sh' = trace sh @ [Request line] \<and>
           conversation_manager sh' = conversation_manager sh \<and>
           current_task sh' =
              Some (t\<lparr>attempts := attempts t + 1,
                      last_error := Some (StrOf (TypeError ''object is not iterable''))\<rparr>)"
proof -
  let ?sh = "sh\<lparr>current_task := Some (t\<lparr>attempts := attempts t + 1\<rparr>)\<rparr>"
  from api have "bad_plan_reply ev (messages_create ev ?sh line)" by blast
  then obtain reply plan acts where r: "messages_create ev ?sh line = ApiText reply" "strip reply \<noteq> []"
     "json_loads ev (strip reply) = Some (JObj plan)" "map_of plan ''actions'' = Some acts"
     "iterate acts = None"
    by (auto simp: bad_plan_reply_def split: api_response.splits option.splits json.splits)
  have "is_plan (JObj plan)" using map_of_keys [OF r(4)] by (simp add: is_plan_def)
  then show ?thesis
    using task ctx r
    by (simp add: attempt_def send_to_anthropic_def process_actions_def set_last_error_def Let_def)
qed

lemma loop_bad_plan:
  assumes api: "\<forall>s m. bad_plan_reply ev (messages_create ev s m)"
  shows "nat (max_attempts t - attempts t) = k \<Longrightarrow> current_task sh = Some t \<Longrightarrow>
         in_progress t \<Longrightarrow> \<not> completed t \<Longrightarrow> 0 \<le> attempts t \<Longrightarrow>
         attempts t \<le> max_attempts t \<Longrightarrow>
         context_renders (conversation_manager sh) \<Longrightarrow>
         trace (process_loop ev line sh) =
           trace sh @ backoff_events line (attempts t) (max_attempts t) \<and>
         current_task (process_loop ev line sh) =
            Some (if k = 0 then t
                  else t\<lparr>attempts := max_attempts t,
                         last_error := Some (StrOf (TypeError ''object is not iterable''))\<rparr>)"
proof (induction k arbitrary: sh t)
  case 0
  then have "\<not> should_retry t" "attempts t = max_attempts t" by (simp_all add: should_retry_def)
  then show ?case
    using 0 by (subst (1 2) process_loop.simps) (simp add: backoff_events_def)
next
  case (Suc k)
  then have sr: "should_retry t" by (simp add: should_retry_def)
  let ?e = "TypeError ''object is not iterable''"
  from attempt_bad_plan [OF api Suc.prems(2) Suc.prems(7), of line]
  obtain sh' where a: "attempt ev line sh = (Raised ?e, sh')"
    "trace sh' = trace sh @ [Request line]"
    "conversation_manager sh' = conversation_manager sh"
    "current_task sh' = Some (t\<lparr>attempts := attempts t + 1, last_error := Some (StrOf ?e)\<rparr>)"
    by blast
  let ?t = "t\<lparr>attempts := attempts t + 1, last_error := Some (StrOf ?e)\<rparr>"
  let ?sh = "handle_error ?e sh'"
  have h: "current_task ?sh = Some ?t" "conversation_manager ?sh = conversation_manager sh"
    "trace ?sh = trace sh @ Request line #
        (if attempts t + 1 < max_attempts t then [Sleep (2 ^ nat (attempts t))] else [])"
    using a Suc.prems(3,4,5)
    by (simp_all add: handle_error_def set_last_error_def Let_def should_retry_def retry_delay_def)
  have step: "process_loop ev line sh = process_loop ev line ?sh"
    using Suc.prems(2) sr a(1) by (subst process_loop.simps) simp
  have IH: "trace (process_loop ev line ?sh) =
           trace ?sh @ backoff_events line (attempts ?t) (max_attempts ?t) \<and>
         current_task (process_loop ev line ?sh) =
            Some (if k = 0 then ?t
                  else ?t\<lparr>attempts := max_attempts ?t, last_error := Some (StrOf ?e)\<rparr>)"
    using Suc.prems h by (intro Suc.IH) auto
  have le: "attempts t + 1 \<le> max_attempts t" using Suc.prems(1) by linarith
  have up: "[attempts t + 1..max_attempts t] = (attempts t + 1) # [attempts t + 1 + 1..max_attempts t]"
    using le by (simp add: upto_rec1)
  have b: "backoff_events line (attempts t) (max_attempts t) =
      Request line # (if attempts t + 1 < max_attempts t then [Sleep (2 ^ nat (attempts t))] else [])
        @ backoff_events line (attempts t + 1) (max_attempts t)"
    unfolding backoff_events_def up by simp
  have "k = 0 \<Longrightarrow> attempts t + 1 = max_attempts t" using Suc.prems(1) by linarith
  with IH show ?case
    using step h(3) b by auto
qed

lemma process_input_api_raises:
  assumes "\<forall>s m r. messages_create ev s m \<noteq> ApiText r"
    and "current_task sh = Some t" "in_progress t" "\<not> completed t"
    and "attempts t \<le> max_attempts t" "context_renders (conversation_manager sh)"
  shows "fst (process_input ev line sh) = Inr ()"
    and "trace (snd (process_input ev line sh)) =
           trace sh @ replicate (nat (max_attempts t - attempts t)) (Request line) @ [FailureReport]"
    and "map_option attempts (current_task (snd (process_input ev line sh))) = Some (max_attempts t)"
    and "map_option completed (current_task (snd (process_input ev line sh))) = Some False"
  using loop_api_raises [OF assms(1) refl assms(2-6), of line] assms(2,4,5)
  by (auto simp: process_input_def Let_def split: if_splits)

lemma process_input_bad_plan:
  assumes "\<forall>s m. bad_plan_reply ev (messages_create ev s m)"
    and "current_task sh = Some t" "in_progress t" "\<not> completed t" "0 \<le> attempts t"
    and "attempts t \<le> max_attempts t" "context_renders (conversation_manager sh)"
  shows "fst (process_input ev line sh) = Inr ()"
    and "trace (snd (process_input ev line sh)) =
           trace sh @ backoff_events line (attempts t) (max_attempts t) @ [FailureReport]"
    and "map_option attempts (current_task (snd (process_input ev line sh))) = Some (max_attempts t)"
    and "map_option completed (current_task (snd (process_input ev line sh))) = Some False"
  using loop_bad_plan [OF assms(1) refl assms(2-7), of line] assms(2,4,6)
  by (auto simp: process_input_def Let_def split: if_splits)

text \<open>
  Claim C1, as amended. For a task in progress with \<open>0 \<le> attempts \<le> max_attempts\<close>:
  when every request to the model fails (the client raises or the reply is invalid),
  the engine makes a request for each remaining attempt with no sleep in between,
  then reports the failure, with \<open>attempts = max_attempts\<close>, the task not completed
  and no exception; when every reply makes \<open>process_actions\<close> raise, it does the same
  but sleeps \<open>2 ^ (attempts - 1)\<close> seconds after each attempt except the last.
\<close>

theorem process_input_exhausts_attempts:
  assumes "current_task sh = Some t" "in_progress t" "\<not> completed t" "0 \<le> attempts t"
    and "attempts t \<le> max_attempts t" "context_renders (conversation_manager sh)"
  shows "((\<forall>s m r. messages_create ev s m \<noteq> ApiText r) \<longrightarrow>
            fst (process_input ev line sh) = Inr () \<and>
            trace (snd (process_input ev line sh)) =
              trace sh @ replicate (nat (max_attempts t - attempts t)) (Request line)
                @ [FailureReport] \<and>
            map_option attempts (current_task (snd (process_input ev line sh))) =
              Some (max_attempts t) \<and>
            map_option completed (current_task (snd (process_input ev line sh))) = Some False)
       \<and> ((\<forall>s m. bad_plan_reply ev (messages_create ev s m)) \<longrightarrow>
            fst (process_input ev line sh) = Inr () \<and>
            trace (snd (process_input ev line sh)) =
              trace sh @ backoff_events line (attempts t) (max_attempts t) @ [FailureReport] \<and>
            map_option attempts (current_task (snd (process_input ev line sh))) =
              Some (max_attempts t) \<and>
            map_option completed (current_task (snd (process_input ev line sh))) = Some False)"
  using process_input_api_raises [OF _ assms(1,2,3,5,6), of ev line]
    process_input_bad_plan [OF _ assms, of ev line]
  by blast

lemma example_task_shell_task:
  "current_task example_task_shell = Some ((new_TaskState example_time)\<lparr>in_progress := True\<rparr>)"
  "context_renders (conversation_manager example_task_shell)"
  "trace example_task_shell = []"
  by (simp_all add: example_task_shell_def example_shell_def context_renders_def recent_window_def)

lemma backoff_events_default:
  "backoff_events line 0 3 = [Request line, Sleep 1, Request line, Sleep 2, Request line]"
  by (simp add: backoff_events_def upto.simps)

theorem process_input_exhausts_attempts_witness:
  "fst (process_input example_env ''list files'' example_task_shell) = Inr ()
   \<and> trace (snd (process_input example_env ''list files'' example_task_shell)) =
       [Request ''list files'', Request ''list files'', Request ''list files'', FailureReport]
   \<and> trace (snd (process_input example_bad_plan_env ''list files'' example_task_shell)) =
       [Request ''list files'', Sleep 1, Request ''list files'', Sleep 2, Request ''list files'',
        FailureReport]"
  using process_input_exhausts_attempts [of example_task_shell
      "(new_TaskState example_time)\<lparr>in_progress := True\<rparr>" example_env "''list files''"]
    process_input_exhausts_attempts [of example_task_shell
      "(new_TaskState example_time)\<lparr>in_progress := True\<rparr>" example_bad_plan_env "''list files''"]
  by (simp add: example_task_shell_task new_TaskState_def example_env_def example_bad_plan_env_def
      bad_plan_reply_def strip_def is_space_def backoff_events_default numeral_3_eq_3)

text \<open>
  With a model client that always raises and the default task, the engine makes three
  requests and never sleeps.
\<close>

theorem process_input_no_backoff_counterexample:
  "trace (snd (process_input example_env ''list files'' example_task_shell)) =
     [Request ''list files'', Request ''list files'', Request ''list files'', FailureReport]
   \<and> map_option attempts
       (current_task (snd (process_input example_env ''list files'' example_task_shell))) = Some 3
   \<and> Sleep 1 \<notin> set (trace (snd (process_input example_env ''list files'' example_task_shell)))"
proof -
  have api: "\<forall>s m r. messages_create example_env s m \<noteq> ApiText r"
    by (simp add: example_env_def)
  have t: "in_progress ((new_TaskState example_time)\<lparr>in_progress := True\<rparr>)"
    "\<not> completed ((new_TaskState example_time)\<lparr>in_progress := True\<rparr>)"
    "attempts ((new_TaskState example_time)\<lparr>in_progress := True\<rparr>)
       \<le> max_attempts ((new_TaskState example_time)\<lparr>in_progress := True\<rparr>)"
    by (simp_all add: new_TaskState_def)
  from process_input_api_raises(2,3) [OF api example_task_shell_task(1) t example_task_shell_task(2),
      of "''list files''"]
  show ?thesis
    by (simp add: example_task_shell_task new_TaskState_def numeral_3_eq_3)
qed

end
